theory Spec2Isabelle
  imports Main "HOL-Library.Multiset"
begin

section \<open>The store: four tables\<close>

text \<open>
  \<^verbatim>\<open>server/storage.ts\<close> reads and writes the tables \<^verbatim>\<open>users\<close>, \<^verbatim>\<open>posts\<close>,
  \<^verbatim>\<open>likes\<close> and \<^verbatim>\<open>comments\<close> of a relational store through a query builder.
  A table is the list of its rows in the order a scan meets them. A query without
  \<^verbatim>\<open>ORDER BY\<close> returns the rows in scan order and an insert appends a row.
\<close>

text \<open>
  Modelled from the spec: the row types \<^verbatim>\<open>User\<close>, \<^verbatim>\<open>Post\<close>, \<^verbatim>\<open>Like\<close> and
  \<^verbatim>\<open>Comment\<close>, which \<^verbatim>\<open>storage.ts\<close> imports from \<^verbatim>\<open>@shared/schema\<close>. The columns
  are the ones the queries of \<^verbatim>\<open>storage.ts\<close> name (\<^verbatim>\<open>posts.id\<close>, \<^verbatim>\<open>likes.postId\<close>,
  ...), which are also the columns of the table shapes in the spec; each is prefixed
  with its table, since a record field is a global name. Identifiers are strings, as
  the signatures of \<^verbatim>\<open>IStorage\<close> say, the image of a post is optional, and a creation
  time is a point of the store's clock, a natural number. Each \<^verbatim>\<open>id\<close> column is the
  primary key of its table: the theorems that need distinct ids say so.
\<close>

record user =
  user_id :: string
  username :: string

record post =
  post_id :: string
  authorName :: string
  authorHandle :: string
  authorAvatar :: string
  post_content :: string
  image :: "string option"
  post_createdAt :: nat

record post_with_counts = post +
  likeCount :: nat
  commentCount :: nat


record like =
  like_id :: string
  like_postId :: string
  like_userId :: string

record comment =
  comment_id :: string
  comment_postId :: string
  comment_content :: string
  comment_author :: string
  comment_avatar :: string
  comment_createdAt :: nat

record content_row =
  content :: string

record db =
  users :: "user list"
  posts :: "post list"
  likes :: "like list"
  comments :: "comment list"

definition empty_db :: db where
  "empty_db = \<lparr>users = [], posts = [], likes = [], comments = []\<rparr>"

section \<open>The query builder\<close>

text \<open>
  \<^verbatim>\<open>.where(c)\<close> keeps the rows that satisfy the condition, \<^verbatim>\<open>.limit(n)\<close> the first
  \<^verbatim>\<open>n\<close> of them. \<^verbatim>\<open>result[0]\<close> on a JavaScript array is \<^verbatim>\<open>undefined\<close> when the
  array is empty: it does not throw.
\<close>

definition where_rows :: "('r \<Rightarrow> bool) \<Rightarrow> 'r list \<Rightarrow> 'r list" where
  "where_rows c rows = filter c rows"

definition limit :: "nat \<Rightarrow> 'r list \<Rightarrow> 'r list" where
  "limit n rows = take n rows"

definition first_row :: "'r list \<Rightarrow> 'r option" where
  "first_row result = (case result of [] \<Rightarrow> None | r # _ \<Rightarrow> Some r)"

text \<open>
  \<^verbatim>\<open>.orderBy(col)\<close> sorts ascending and \<^verbatim>\<open>.orderBy(desc(col))\<close> descending. SQL
  leaves the order of rows with equal keys open. The model keeps such rows in table
  order in both directions: ascending is the stable insertion sort, descending is the
  stable insertion sort of the reversed table, reversed.
\<close>

definition orderBy :: "('r \<Rightarrow> nat) \<Rightarrow> 'r list \<Rightarrow> 'r list" where
  "orderBy col rows = sort_key col rows"

definition orderBy_desc :: "('r \<Rightarrow> nat) \<Rightarrow> 'r list \<Rightarrow> 'r list" where
  "orderBy_desc col rows = rev (sort_key col (rev rows))"

text \<open>
  \<^verbatim>\<open>.leftJoin(t, on)\<close>: every row of the left side is paired with each row of \<^verbatim>\<open>t\<close>
  that matches it, and with \<^verbatim>\<open>NULL\<close> when none does.
\<close>

definition leftJoin :: "'a list \<Rightarrow> 'b list \<Rightarrow> ('a \<Rightarrow> 'b \<Rightarrow> bool) \<Rightarrow> ('a \<times> 'b option) list" where
  "leftJoin lhs t on =
     concat (map (\<lambda>x. case filter (on x) t of
                         [] \<Rightarrow> [(x, None)]
                       | ms \<Rightarrow> map (\<lambda>y. (x, Some y)) ms) lhs)"

text \<open>\<^verbatim>\<open>COUNT(DISTINCT col)\<close> counts the distinct values of the column that are not \<^verbatim>\<open>NULL\<close>.\<close>

definition count_distinct :: "'v option list \<Rightarrow> nat" where
  "count_distinct vs = length (remdups (List.map_filter (\<lambda>v. v) vs))"

text \<open>
  \<^verbatim>\<open>.groupBy(key)\<close>: one group for each value of the key, holding the joined rows with
  that value, in the order the values first occur.
\<close>

definition groupBy :: "('r \<Rightarrow> string) \<Rightarrow> 'r list \<Rightarrow> 'r list list" where
  "groupBy key rows = map (\<lambda>g. filter (\<lambda>r. key r = g) rows) (remdups (map key rows))"

section \<open>DatabaseStorage\<close>

subsection \<open>Point lookups\<close>

definition getUser :: "db \<Rightarrow> string \<Rightarrow> user option" where
  "getUser d ident = first_row (limit 1 (where_rows (\<lambda>r. user_id r = ident) (users d)))"

definition getUserByUsername :: "db \<Rightarrow> string \<Rightarrow> user option" where
  "getUserByUsername d name = first_row (limit 1 (where_rows (\<lambda>r. username r = name) (users d)))"

definition getPost :: "db \<Rightarrow> string \<Rightarrow> post option" where
  "getPost d ident = first_row (limit 1 (where_rows (\<lambda>r. post_id r = ident) (posts d)))"

subsection \<open>Posts\<close>

text \<open>
  The selection of \<^verbatim>\<open>getPosts\<close>: the seven columns of the post and the two counts.
\<close>

definition select_post_counts :: "post \<Rightarrow> nat \<Rightarrow> nat \<Rightarrow> post_with_counts" where
  "select_post_counts p lc cc =
     \<lparr>post_id = post_id p, authorName = authorName p, authorHandle = authorHandle p,
      authorAvatar = authorAvatar p, post_content = post_content p, image = image p,
      post_createdAt = post_createdAt p, likeCount = lc, commentCount = cc\<rparr>"

definition posts_likes_comments :: "db \<Rightarrow> ((post \<times> like option) \<times> comment option) list" where
  "posts_likes_comments d =
     leftJoin (leftJoin (posts d) (likes d) (\<lambda>p l. post_id p = like_postId l))
       (comments d) (\<lambda>pl c. post_id (fst pl) = comment_postId c)"

definition select_group :: "((post \<times> like option) \<times> comment option) list \<Rightarrow> post_with_counts list" where
  "select_group grp =
     (case grp of
        [] \<Rightarrow> []
      | r # _ \<Rightarrow>
          [select_post_counts (fst (fst r))
             (count_distinct (map (\<lambda>x. map_option like_id (snd (fst x))) grp))
             (count_distinct (map (\<lambda>x. map_option comment_id (snd x)) grp))])"

definition getPosts :: "db \<Rightarrow> post_with_counts list" where
  "getPosts d =
     orderBy_desc post_createdAt
       (concat (map select_group
          (groupBy (\<lambda>r. post_id (fst (fst r))) (posts_likes_comments d))))"

definition getPostsByRoom :: "db \<Rightarrow> string \<Rightarrow> post list" where
  "getPostsByRoom d roomId = orderBy_desc post_createdAt (posts d)"


subsection \<open>Likes\<close>

definition getLikesByPost :: "db \<Rightarrow> string \<Rightarrow> like list" where
  "getLikesByPost d postId = where_rows (\<lambda>l. like_postId l = postId) (likes d)"

text \<open>
  A count reaches JavaScript as a number or as a string. \<^verbatim>\<open>COUNT\<close> has the SQL type
  \<^verbatim>\<open>bigint\<close>, which the driver hands over as its decimal text; the counts of
  \<^verbatim>\<open>getPosts\<close> are numbers because that query casts them
  (\<^verbatim>\<open>CAST(... AS INTEGER)\<close>). \<open>falsy\<close> is what \<^verbatim>\<open>||\<close> tests: the number \<^verbatim>\<open>0\<close> and the
  empty string.
\<close>

datatype js_value = Number nat | Text string

fun decimal :: "nat \<Rightarrow> string" where
  "decimal n =
     (if n < 10 then [''0123456789'' ! n]
      else decimal (n div 10) @ [''0123456789'' ! (n mod 10)])"

declare decimal.simps [simp del]

fun falsy :: "js_value \<Rightarrow> bool" where
  "falsy (Number n) = (n = 0)"
| "falsy (Text s) = (s = [])"

text \<open>
  \<^verbatim>\<open>getLikesCount\<close> selects \<^verbatim>\<open>COUNT(*)\<close> as it is, without a cast. The aggregate
  gives one row; \<^verbatim>\<open>result[0]?.count || 0\<close> reads it, with \<^verbatim>\<open>0\<close> for a missing row
  and for a falsy count.
\<close>

definition getLikesCount :: "db \<Rightarrow> string \<Rightarrow> js_value" where
  "getLikesCount d postId =
     (let result = [Text (decimal (length (where_rows (\<lambda>l. like_postId l = postId) (likes d))))]
      in case first_row result of
           None \<Rightarrow> Number 0
         | Some c \<Rightarrow> (if falsy c then Number 0 else c))"

definition checkUserLike :: "db \<Rightarrow> string \<Rightarrow> string \<Rightarrow> bool" where
  "checkUserLike d postId userId =
     (let result = limit 1 (where_rows (\<lambda>l. like_postId l = postId \<and> like_userId l = userId) (likes d))
      in length result > 0)"

definition checkLike :: "db \<Rightarrow> string \<Rightarrow> string \<Rightarrow> bool" where
  "checkLike d postId userId = checkUserLike d postId userId"

text \<open>
  An insert into \<^verbatim>\<open>likes\<close> gives only \<^verbatim>\<open>postId\<close> and \<^verbatim>\<open>userId\<close>; the store fills in
  the \<^verbatim>\<open>id\<close> of the new row. That generated key is the argument \<open>newId\<close>.
\<close>

definition insert_like :: "db \<Rightarrow> string \<Rightarrow> string \<Rightarrow> string \<Rightarrow> db" where
  "insert_like d newId postId userId =
     d\<lparr>likes := likes d @ [\<lparr>like_id = newId, like_postId = postId, like_userId = userId\<rparr>]\<rparr>"

definition delete_like :: "db \<Rightarrow> string \<Rightarrow> db" where
  "delete_like d ident = d\<lparr>likes := filter (\<lambda>r. like_id r \<noteq> ident) (likes d)\<rparr>"

definition addLike :: "db \<Rightarrow> string \<Rightarrow> string \<Rightarrow> string \<Rightarrow> db" where
  "addLike d newId postId userId = insert_like d newId postId userId"

definition toggleLike :: "db \<Rightarrow> string \<Rightarrow> string \<Rightarrow> string \<Rightarrow> bool \<times> db" where
  "toggleLike d newId postId userId =
     (let existingLike = limit 1 (where_rows (\<lambda>l. like_postId l = postId \<and> like_userId l = userId) (likes d))
      in case existingLike of
           l # _ \<Rightarrow> (False, delete_like d (like_id l))
         | [] \<Rightarrow> (True, insert_like d newId postId userId))"

subsection \<open>Comments\<close>

definition getCommentsByPost :: "db \<Rightarrow> string \<Rightarrow> comment list" where
  "getCommentsByPost d postId =
     orderBy comment_createdAt (where_rows (\<lambda>c. comment_postId c = postId) (comments d))"

definition getComments :: "db \<Rightarrow> string \<Rightarrow> string list" where
  "getComments d postId =
     (let result = map (\<lambda>c. \<lparr>content = comment_content c\<rparr>)
                     (orderBy comment_createdAt (where_rows (\<lambda>c. comment_postId c = postId) (comments d)))
      in map (\<lambda>c. content c) result)"

section \<open>Like rows of a pair, and calls in sequence\<close>

text \<open>
  The Like rows of a pair (postId, userId), and the invariant of the data model: a pair
  has at most one Like row.
\<close>

definition likes_for :: "db \<Rightarrow> string \<Rightarrow> string \<Rightarrow> like list" where
  "likes_for d postId userId =
     filter (\<lambda>l. like_postId l = postId \<and> like_userId l = userId) (likes d)"

definition at_most_one_like :: "db \<Rightarrow> string \<Rightarrow> string \<Rightarrow> bool" where
  "at_most_one_like d postId userId = (length (likes_for d postId userId) \<le> 1)"

text \<open>
  \<open>toggleLike\<close> called for the same pair once for each element of \<open>ids\<close>, each call
  after the one before it has returned; the element is the key the store generates
  should that call insert. The result is the store after the last call.
\<close>

definition after_toggles :: "db \<Rightarrow> string list \<Rightarrow> string \<Rightarrow> string \<Rightarrow> db" where
  "after_toggles d ids postId userId = foldl (\<lambda>s i. snd (toggleLike s i postId userId)) d ids"

section \<open>Calls of toggleLike that overlap\<close>

text \<open>
  \<open>toggleLike\<close> sends two statements and waits for each (\<^verbatim>\<open>await\<close>): the lookup, then
  the delete or the insert. Other calls can run between the two. A call is \<open>Pending\<close>
  before its lookup, \<open>Fetched existingLike\<close> between the lookup and the write, and
  \<open>Returned liked\<close> after it. \<open>step_call\<close> runs the next statement of one call.
\<close>

datatype call = Pending | Fetched "like list" | Returned bool

fun step_call :: "string \<Rightarrow> string \<Rightarrow> db \<Rightarrow> string \<Rightarrow> call \<Rightarrow> db \<times> call" where
  "step_call postId userId d newId Pending =
     (d, Fetched (limit 1 (where_rows (\<lambda>l. like_postId l = postId \<and> like_userId l = userId) (likes d))))"
| "step_call postId userId d newId (Fetched existingLike) =
     (case existingLike of
        l # _ \<Rightarrow> (delete_like d (like_id l), Returned False)
      | [] \<Rightarrow> (insert_like d newId postId userId, Returned True))"
| "step_call postId userId d newId (Returned liked) = (d, Returned liked)"

text \<open>
  A schedule lists which call runs its next statement, with the key the store would
  generate for an insert. An entry that names no call is skipped.
\<close>

fun run_schedule :: "string \<Rightarrow> string \<Rightarrow> (nat \<times> string) list \<Rightarrow> db \<times> call list \<Rightarrow> db \<times> call list" where
  "run_schedule postId userId [] s = s"
| "run_schedule postId userId ((k, newId) # sched) (d, cs) =
     (if k < length cs
      then (case step_call postId userId d newId (cs ! k) of
              (d', c') \<Rightarrow> run_schedule postId userId sched (d', cs[k := c']))
      else run_schedule postId userId sched (d, cs))"

text \<open>A schedule without overlap: each call runs its two statements back to back.\<close>

definition serial :: "(nat \<times> string) list \<Rightarrow> (nat \<times> string) list" where
  "serial ks = concat (map (\<lambda>e. [e, e]) ks)"

text \<open>A call is idle when it is not between its lookup and its write.\<close>

fun idle :: "call \<Rightarrow> bool" where
  "idle (Fetched existingLike) = False"
| "idle c = True"

section \<open>Example stores\<close>

definition example_post1 :: post where
  "example_post1 =
     \<lparr>post_id = ''p1'', authorName = ''Ann'', authorHandle = ''@ann'', authorAvatar = ''a.png'',
      post_content = ''hello'', image = None, post_createdAt = 1\<rparr>"

definition example_post2 :: post where
  "example_post2 =
     \<lparr>post_id = ''p2'', authorName = ''Bob'', authorHandle = ''@bob'', authorAvatar = ''b.png'',
      post_content = ''world'', image = Some ''i.png'', post_createdAt = 2\<rparr>"

definition example_db :: db where
  "example_db =
     \<lparr>users = [\<lparr>user_id = ''u1'', username = ''ann''\<rparr>],
      posts = [example_post1, example_post2],
      likes = [\<lparr>like_id = ''l1'', like_postId = ''p1'', like_userId = ''u1''\<rparr>,
               \<lparr>like_id = ''l2'', like_postId = ''p1'', like_userId = ''u2''\<rparr>],
      comments = [\<lparr>comment_id = ''c1'', comment_postId = ''p1'', comment_content = ''second'',
                   comment_author = ''x'', comment_avatar = ''y'', comment_createdAt = 7\<rparr>,
                  \<lparr>comment_id = ''c2'', comment_postId = ''p1'', comment_content = ''first'',
                   comment_author = ''x'', comment_avatar = ''y'', comment_createdAt = 5\<rparr>]\<rparr>"



definition duplicate_likes_db :: db where
  "duplicate_likes_db = addLike (addLike empty_db ''a'' ''p1'' ''u1'') ''b'' ''p1'' ''u1''"

section \<open>Lookups, likes and the toggle\<close>

lemma first_row_where_None:
  "first_row (limit 1 (where_rows c rows)) = None \<longleftrightarrow> (\<forall>r\<in>set rows. \<not> c r)"
proof (cases "filter c rows")
  case Nil
  then show ?thesis by (simp add: first_row_def limit_def where_rows_def filter_empty_conv)
next
  case (Cons a as)
  then have "a \<in> set (filter c rows)" by simp
  then have "\<exists>r\<in>set rows. c r" by auto
  with Cons show ?thesis by (simp add: first_row_def limit_def where_rows_def)
qed

lemma likes_for_insert_like:
  "likes_for (insert_like d i p u) p u =
     likes_for d p u @ [\<lparr>like_id = i, like_postId = p, like_userId = u\<rparr>]"
  by (simp add: likes_for_def insert_like_def)

lemma likes_for_delete_like:
  "likes_for (delete_like d x) p u = filter (\<lambda>r. like_id r \<noteq> x) (likes_for d p u)"
  by (simp add: likes_for_def delete_like_def conj_commute)

lemma checkUserLike_iff: "checkUserLike d p u \<longleftrightarrow> likes_for d p u \<noteq> []"
  by (simp add: checkUserLike_def limit_def where_rows_def likes_for_def)

lemma toggleLike_absent:
  assumes "likes_for d p u = []"
  shows "toggleLike d i p u = (True, insert_like d i p u)"
  using assms by (simp add: toggleLike_def limit_def where_rows_def likes_for_def)

lemma toggleLike_present:
  assumes "likes_for d p u = l # ls"
  shows "toggleLike d i p u = (False, delete_like d (like_id l))"
  using assms by (simp add: toggleLike_def limit_def where_rows_def likes_for_def)

text \<open>With at most one row for the pair, a call flips the number of rows between 0 and 1.\<close>

lemma toggle_count:
  assumes "length (likes_for d p u) \<le> 1"
  shows "length (likes_for (snd (toggleLike d i p u)) p u) = 1 - length (likes_for d p u) \<and>
         fst (toggleLike d i p u) = (likes_for d p u = [])"
proof (cases "likes_for d p u")
  case Nil
  then show ?thesis by (simp add: toggleLike_absent likes_for_insert_like)
next
  case (Cons l ls)
  with assms have "ls = []" by simp
  with Cons show ?thesis by (simp add: toggleLike_present likes_for_delete_like)
qed

lemma after_toggles_snoc:
  "after_toggles d (ids @ [i]) p u = snd (toggleLike (after_toggles d ids p u) i p u)"
  by (simp add: after_toggles_def)

lemma after_toggles_count:
  assumes "likes_for d p u = []"
  shows "length (likes_for (after_toggles d ids p u) p u) = (if odd (length ids) then 1 else 0)"
proof (induction ids rule: rev_induct)
  case Nil
  then show ?case using assms by (simp add: after_toggles_def)
next
  case (snoc i ids)
  then have "length (likes_for (after_toggles d ids p u) p u) \<le> 1" by simp
  from toggle_count [OF this, of i] snoc show ?case
    by (simp add: after_toggles_snoc)
qed

text \<open>
  Claim C1 (toggle law). From a store with no Like row for the pair (p, u), after
  \<open>toggleLike\<close> has been called for the pair any number of times in strict sequence,
  \<open>checkUserLike\<close> is true exactly when the number of calls is odd; and after each
  single call of the sequence, \<open>checkUserLike\<close> equals the \<open>liked\<close> that call returned.
  This holds whatever keys the store generates for the inserted rows.
\<close>

theorem toggle_law:
  assumes "likes_for d p u = []"
  shows "checkUserLike (after_toggles d ids p u) p u = odd (length ids) \<and>
         (\<forall>k<length ids.
            checkUserLike (snd (toggleLike (after_toggles d (take k ids) p u) (ids ! k) p u)) p u
              = fst (toggleLike (after_toggles d (take k ids) p u) (ids ! k) p u))"
proof (intro conjI allI impI)
  show "checkUserLike (after_toggles d ids p u) p u = odd (length ids)"
  proof (cases "odd (length ids)")
    case True
    with after_toggles_count [OF assms, of ids]
    have "length (likes_for (after_toggles d ids p u) p u) = 1" by simp
    then have "likes_for (after_toggles d ids p u) p u \<noteq> []" by auto
    with True show ?thesis by (simp add: checkUserLike_iff)
  next
    case False
    with after_toggles_count [OF assms, of ids]
    have "likes_for (after_toggles d ids p u) p u = []" by simp
    with False show ?thesis by (simp add: checkUserLike_iff)
  qed
next
  fix k assume k: "k < length ids"
  let ?s = "after_toggles d (take k ids) p u"
  have "length (likes_for ?s p u) \<le> 1"
    using after_toggles_count [OF assms, of "take k ids"] by simp
  from toggle_count [OF this, of "ids ! k"]
  show "checkUserLike (snd (toggleLike ?s (ids ! k) p u)) p u = fst (toggleLike ?s (ids ! k) p u)"
    by (cases "likes_for ?s p u") (auto simp: checkUserLike_iff)
qed

theorem toggle_law_witness:
  "likes_for example_db ''p2'' ''u1'' = [] \<and>
   checkUserLike (after_toggles example_db [''a'', ''b'', ''c''] ''p2'' ''u1'') ''p2'' ''u1'' \<and>
   \<not> checkUserLike (after_toggles example_db [''a'', ''b''] ''p2'' ''u1'') ''p2'' ''u1'' \<and>
   checkUserLike
     (snd (toggleLike (after_toggles example_db [''a''] ''p2'' ''u1'') ''b'' ''p2'' ''u1''))
     ''p2'' ''u1''
     = fst (toggleLike (after_toggles example_db [''a''] ''p2'' ''u1'') ''b'' ''p2'' ''u1'')"
proof -
  have h: "likes_for example_db ''p2'' ''u1'' = []"
    by (simp add: likes_for_def example_db_def)
  from toggle_law [OF h, of "[''a'', ''b'', ''c'']"] toggle_law [OF h, of "[''a'', ''b'']"]
  show ?thesis using h by (auto dest!: spec [of _ 1])
qed

text \<open>
  Claim C6. \<open>addLike\<close> inserts without looking for an existing row: two calls in
  sequence for the same pair append two rows, so the pair has two more Like rows than
  before and the at-most-one invariant is broken.
\<close>

theorem addLike_twice_two_rows:
  "likes (addLike (addLike d i1 p u) i2 p u) =
     likes d @ [\<lparr>like_id = i1, like_postId = p, like_userId = u\<rparr>,
                \<lparr>like_id = i2, like_postId = p, like_userId = u\<rparr>] \<and>
   length (likes_for (addLike (addLike d i1 p u) i2 p u) p u) = length (likes_for d p u) + 2 \<and>
   \<not> at_most_one_like (addLike (addLike d i1 p u) i2 p u) p u"
  by (simp add: addLike_def likes_for_insert_like at_most_one_like_def) (simp add: insert_like_def)

text \<open>
  Claim C9. A point lookup whose key matches no row returns the absent value: \<open>getUser\<close>
  for an id no user has, \<open>getUserByUsername\<close> for a name no user has and \<open>getPost\<close> for
  an id no post has all return \<open>None\<close>, the model of \<^verbatim>\<open>undefined\<close>.
\<close>

theorem point_lookups_absent:
  assumes "i \<notin> user_id ` set (users d)" and "n \<notin> username ` set (users d)"
    and "j \<notin> post_id ` set (posts d)"
  shows "getUser d i = None \<and> getUserByUsername d n = None \<and> getPost d j = None"
  using assms unfolding getUser_def getUserByUsername_def getPost_def first_row_where_None
  by auto

theorem point_lookups_absent_witness:
  "''u9'' \<notin> user_id ` set (users example_db) \<and> ''zed'' \<notin> username ` set (users example_db) \<and>
   ''p9'' \<notin> post_id ` set (posts example_db) \<and>
   getUser example_db ''u9'' = None \<and> getUserByUsername example_db ''zed'' = None \<and>
   getPost example_db ''p9'' = None"
  using point_lookups_absent [of "''u9''" example_db "''zed''" "''p9''"]
  by (simp add: example_db_def example_post1_def example_post2_def)

text \<open>A delete by a key that is unique among the rows removes exactly the row that has it.\<close>

lemma filter_neq_key_remove1:
  assumes "distinct (map f xs)" and "l \<in> set xs"
  shows "filter (\<lambda>r. f r \<noteq> f l) xs = remove1 l xs"
  using assms
proof (induction xs)
  case Nil
  then show ?case by simp
next
  case (Cons x xs)
  show ?case
  proof (cases "x = l")
    case True
    with Cons.prems have "f l \<notin> f ` set xs" by simp
    then have "\<forall>r\<in>set xs. f r \<noteq> f l" by (metis imageI)
    then have "filter (\<lambda>r. f r \<noteq> f l) xs = xs" by (simp add: filter_id_conv)
    with True show ?thesis by simp
  next
    case False
    with Cons.prems have "l \<in> set xs" "f x \<noteq> f l" "distinct (map f xs)" by auto
    with Cons.IH False show ?thesis by simp
  qed
qed

text \<open>
  Claim C10. In a store whose Like rows have distinct ids (\<^verbatim>\<open>likes.id\<close> is the
  primary key) and where the pair (p, u) has more than one Like row, \<open>toggleLike\<close>
  returns \<open>liked = False\<close> and deletes exactly one row, the one its lookup fetched:
  the pair keeps one row fewer, which is at least one, so \<open>checkUserLike\<close> is still
  true right after the call.
\<close>

theorem toggleLike_with_duplicates:
  assumes "distinct (map like_id (likes d))" and "length (likes_for d p u) > 1"
  shows "fst (toggleLike d i p u) = False \<and>
         mset (likes (snd (toggleLike d i p u))) = mset (likes d) - {#hd (likes_for d p u)#} \<and>
         length (likes_for (snd (toggleLike d i p u)) p u) = length (likes_for d p u) - 1 \<and>
         checkUserLike (snd (toggleLike d i p u)) p u"
proof -
  from assms(2) obtain l ls where ll: "likes_for d p u = l # ls"
    by (cases "likes_for d p u") auto
  then have "l \<in> set (likes_for d p u)" by simp
  then have lin: "l \<in> set (likes d)" by (simp add: likes_for_def)
  have tg: "toggleLike d i p u = (False, delete_like d (like_id l))"
    using ll by (rule toggleLike_present)
  have del: "likes (delete_like d (like_id l)) = remove1 l (likes d)"
    using filter_neq_key_remove1 [OF assms(1) lin] by (simp add: delete_like_def)
  have "distinct (map like_id (likes_for d p u))"
    using assms(1) by (simp add: likes_for_def distinct_map_filter)
  with ll have "like_id l \<notin> like_id ` set ls" by simp
  then have "\<forall>r\<in>set ls. like_id r \<noteq> like_id l" by (metis imageI)
  then have "filter (\<lambda>r. like_id r \<noteq> like_id l) ls = ls" by (simp add: filter_id_conv)
  with ll have rest: "likes_for (delete_like d (like_id l)) p u = ls"
    by (simp add: likes_for_delete_like)
  from assms(2) ll have "ls \<noteq> []" by auto
  with tg del rest ll show ?thesis
    by (simp add: checkUserLike_iff)
qed

theorem toggleLike_with_duplicates_witness:
  "distinct (map like_id (likes duplicate_likes_db)) \<and>
   length (likes_for duplicate_likes_db ''p1'' ''u1'') > 1 \<and>
   fst (toggleLike duplicate_likes_db ''c'' ''p1'' ''u1'') = False \<and>
   length (likes_for (snd (toggleLike duplicate_likes_db ''c'' ''p1'' ''u1'')) ''p1'' ''u1'') = 1 \<and>
   checkUserLike (snd (toggleLike duplicate_likes_db ''c'' ''p1'' ''u1'')) ''p1'' ''u1''"
proof -
  have h1: "distinct (map like_id (likes duplicate_likes_db))"
    by (simp add: duplicate_likes_db_def addLike_def insert_like_def empty_db_def)
  have h2: "length (likes_for duplicate_likes_db ''p1'' ''u1'') > 1"
    by (simp add: duplicate_likes_db_def addLike_def insert_like_def empty_db_def likes_for_def)
  have n: "length (likes_for duplicate_likes_db ''p1'' ''u1'') = 2"
    by (simp add: duplicate_likes_db_def addLike_def insert_like_def empty_db_def likes_for_def)
  from toggleLike_with_duplicates [OF h1 h2, of "''c''"] h1 h2 n show ?thesis by simp
qed

section \<open>Comments and posts in order\<close>

text \<open>
  Claim C7. \<open>getCommentsByPost\<close> returns exactly the comments of the post (the same
  rows, each as often as the table holds it), in ascending order of creation time, and
  \<open>getComments\<close> is the content column of that list, in the same order.
\<close>

theorem comments_ascending_and_projected:
  "mset (getCommentsByPost d p) = mset (filter (\<lambda>c. comment_postId c = p) (comments d)) \<and>
   sorted (map comment_createdAt (getCommentsByPost d p)) \<and>
   getComments d p = map comment_content (getCommentsByPost d p)"
  by (simp add: getCommentsByPost_def getComments_def orderBy_def where_rows_def comp_def)

lemma orderBy_desc_sorted:
  "sorted_wrt (\<lambda>a b. col a \<ge> col b) (orderBy_desc col rows)"
proof -
  have "sorted (map col (sort_key col (rev rows)))" by (rule sorted_sort_key)
  then have "sorted_wrt (\<lambda>a b. col a \<le> col b) (sort_key col (rev rows))"
    by (simp add: sorted_map)
  then show ?thesis by (simp add: orderBy_desc_def sorted_wrt_rev)
qed

text \<open>
  Claim C5. \<open>getPostsByRoom\<close> does not read its \<open>roomId\<close>: for any two room ids it
  returns the same list on the same store, and that list holds all posts of the store,
  newest first.
\<close>

theorem getPostsByRoom_ignores_roomId:
  "getPostsByRoom d r1 = getPostsByRoom d r2 \<and>
   mset (getPostsByRoom d r1) = mset (posts d) \<and>
   sorted_wrt (\<lambda>a b. post_createdAt a \<ge> post_createdAt b) (getPostsByRoom d r1)"
  using orderBy_desc_sorted [of post_createdAt "posts d"]
  by (simp add: getPostsByRoom_def orderBy_desc_def)

section \<open>Calls of toggleLike that overlap or do not\<close>

lemma toggleLike_keeps_at_most_one:
  assumes "at_most_one_like d p u"
  shows "at_most_one_like (snd (toggleLike d i p u)) p u"
  using toggle_count [of d p u i] assms by (simp add: at_most_one_like_def)

lemma two_steps_are_toggleLike:
  "step_call p u (fst (step_call p u d i Pending)) i (snd (step_call p u d i Pending))
     = (snd (toggleLike d i p u), Returned (fst (toggleLike d i p u)))"
  by (simp add: toggleLike_def split: list.splits)

lemma run_pair_pending:
  assumes "k < length cs" and "cs ! k = Pending"
  shows "run_schedule p u ((k, i) # (k, i) # sched) (d, cs)
           = run_schedule p u sched
               (snd (toggleLike d i p u), cs[k := Returned (fst (toggleLike d i p u))])"
  using assms by (simp add: toggleLike_def split: list.splits)

lemma run_pair_returned:
  assumes "k < length cs" and "cs ! k = Returned b"
  shows "run_schedule p u ((k, i) # (k, i) # sched) (d, cs) = run_schedule p u sched (d, cs)"
proof -
  from assms(2) have "cs[k := Returned b] = cs" by (metis list_update_id)
  with assms show ?thesis by simp
qed

lemma run_pair_skipped:
  assumes "\<not> k < length cs"
  shows "run_schedule p u ((k, i) # (k, i) # sched) (d, cs) = run_schedule p u sched (d, cs)"
  using assms by simp

lemma serial_Cons: "serial ((k, i) # ks) = (k, i) # (k, i) # serial ks"
  by (simp add: serial_def)

lemma serial_keeps_at_most_one:
  assumes "at_most_one_like d p u" and "\<forall>c\<in>set cs. idle c"
  shows "at_most_one_like (fst (run_schedule p u (serial ks) (d, cs))) p u"
  using assms
proof (induction ks arbitrary: d cs)
  case Nil
  then show ?case by (simp add: serial_def)
next
  case (Cons e ks)
  obtain k i where e: "e = (k, i)" by (cases e)
  show ?case
  proof (cases "k < length cs")
    case False
    then show ?thesis
      unfolding e serial_Cons run_pair_skipped [OF False]
      using Cons.IH [OF Cons.prems] by simp
  next
    case True
    then have "idle (cs ! k)" using Cons.prems(2) by simp
    then consider "cs ! k = Pending" | b where "cs ! k = Returned b"
      by (cases "cs ! k") auto
    then show ?thesis
    proof cases
      case 1
      let ?cs = "cs[k := Returned (fst (toggleLike d i p u))]"
      have "set ?cs \<subseteq> insert (Returned (fst (toggleLike d i p u))) (set cs)"
        by (rule set_update_subset_insert)
      with Cons.prems(2) have "\<forall>c\<in>set ?cs. idle c" by auto
      from Cons.IH [OF toggleLike_keeps_at_most_one [OF Cons.prems(1)] this]
      show ?thesis
        unfolding e serial_Cons run_pair_pending [OF True 1] .
    next
      case 2
      show ?thesis
        unfolding e serial_Cons run_pair_returned [OF True 2]
        using Cons.IH [OF Cons.prems] .
    qed
  qed
qed

text \<open>
  Claim C2, as amended. \<open>toggleLike\<close> is not atomic with respect to itself: its
  lookup and its write are two statements, and calls that overlap can leave two rows,
  as the example after this theorem shows. What holds is the property for calls that
  do not overlap: from a store with at most one Like row for the pair, any number of
  calls for the pair in which every call runs its lookup and its write back to back
  leave at most one Like row for the pair.
\<close>

theorem toggleLike_serial_at_most_one:
  assumes "at_most_one_like d p u"
  shows "at_most_one_like (fst (run_schedule p u (serial ks) (d, replicate n Pending))) p u"
  using serial_keeps_at_most_one [OF assms, of "replicate n Pending" ks] by simp

theorem toggleLike_serial_at_most_one_witness:
  "at_most_one_like empty_db ''p1'' ''u1'' \<and>
   at_most_one_like
     (fst (run_schedule ''p1'' ''u1'' (serial [(0, ''a''), (1, ''b'')]) (empty_db, replicate 2 Pending)))
     ''p1'' ''u1''"
proof -
  have h: "at_most_one_like empty_db ''p1'' ''u1''"
    by (simp add: at_most_one_like_def likes_for_def empty_db_def)
  from toggleLike_serial_at_most_one [OF h] h show ?thesis by simp
qed


text \<open>
  Claim C2 as stated fails. Two calls for the same pair on the empty store: both run
  their lookup and find no row, then both insert. Both return \<open>liked = True\<close> and the
  pair has two Like rows.
\<close>

theorem toggleLike_overlap_counterexample:
  "at_most_one_like empty_db ''p1'' ''u1'' \<and>
   snd (run_schedule ''p1'' ''u1'' [(0, ''a''), (1, ''b''), (0, ''a''), (1, ''b'')]
          (empty_db, [Pending, Pending])) = [Returned True, Returned True] \<and>
   length (likes_for
     (fst (run_schedule ''p1'' ''u1'' [(0, ''a''), (1, ''b''), (0, ''a''), (1, ''b'')]
             (empty_db, [Pending, Pending]))) ''p1'' ''u1'') = 2 \<and>
   \<not> at_most_one_like
     (fst (run_schedule ''p1'' ''u1'' [(0, ''a''), (1, ''b''), (0, ''a''), (1, ''b'')]
             (empty_db, [Pending, Pending]))) ''p1'' ''u1''"
  by (simp add: at_most_one_like_def likes_for_def empty_db_def limit_def where_rows_def
      insert_like_def)

section \<open>The counts of getPosts\<close>

lemma in_leftJoin_iff:
  "(x, lo) \<in> set (leftJoin lhs t on) \<longleftrightarrow>
     x \<in> set lhs \<and> (case lo of Some y \<Rightarrow> y \<in> set t \<and> on x y | None \<Rightarrow> \<forall>y\<in>set t. \<not> on x y)"
proof -
  have one: "(x, lo) \<in> set (case filter (on x') t of [] \<Rightarrow> [(x', None)]
                               | ms \<Rightarrow> map (\<lambda>y. (x', Some y)) ms) \<longleftrightarrow>
        x = x' \<and> (case lo of Some y \<Rightarrow> y \<in> set t \<and> on x y | None \<Rightarrow> \<forall>y\<in>set t. \<not> on x y)"
    for x'
  proof (cases "filter (on x') t")
    case Nil
    then have "\<forall>y\<in>set t. \<not> on x' y" by (simp add: filter_empty_conv)
    with Nil show ?thesis by (cases lo) auto
  next
    case (Cons a as)
    then have "a \<in> set (filter (on x') t)" by simp
    then have ex: "\<exists>y\<in>set t. on x' y" by auto
    have "set (map (\<lambda>y. (x', Some y)) (filter (on x') t)) = (\<lambda>y. (x', Some y)) ` {y \<in> set t. on x' y}"
      by simp
    with Cons ex show ?thesis by (cases lo) (auto simp del: set_map)
  qed
  show ?thesis unfolding leftJoin_def by (auto simp: one)
qed

lemma in_posts_likes_comments_iff:
  "((p, lo), co) \<in> set (posts_likes_comments d) \<longleftrightarrow>
     p \<in> set (posts d) \<and>
     (case lo of Some l \<Rightarrow> l \<in> set (likes d) \<and> post_id p = like_postId l
               | None \<Rightarrow> \<forall>l\<in>set (likes d). post_id p \<noteq> like_postId l) \<and>
     (case co of Some c \<Rightarrow> c \<in> set (comments d) \<and> post_id p = comment_postId c
               | None \<Rightarrow> \<forall>c\<in>set (comments d). post_id p \<noteq> comment_postId c)"
  by (auto simp: posts_likes_comments_def in_leftJoin_iff split: option.splits)

lemma post_has_joined_row:
  assumes "p \<in> set (posts d)"
  shows "\<exists>lo co. ((p, lo), co) \<in> set (posts_likes_comments d)"
proof -
  obtain lo where lo: "case lo of Some l \<Rightarrow> l \<in> set (likes d) \<and> post_id p = like_postId l
               | None \<Rightarrow> \<forall>l\<in>set (likes d). post_id p \<noteq> like_postId l"
  proof (cases "\<exists>l\<in>set (likes d). post_id p = like_postId l")
    case True
    then obtain l where "l \<in> set (likes d)" "post_id p = like_postId l" by blast
    then show ?thesis using that [of "Some l"] by simp
  next
    case False
    then show ?thesis using that [of None] by simp
  qed
  obtain co where co: "case co of Some c \<Rightarrow> c \<in> set (comments d) \<and> post_id p = comment_postId c
               | None \<Rightarrow> \<forall>c\<in>set (comments d). post_id p \<noteq> comment_postId c"
  proof (cases "\<exists>c\<in>set (comments d). post_id p = comment_postId c")
    case True
    then obtain c where "c \<in> set (comments d)" "post_id p = comment_postId c" by blast
    then show ?thesis using that [of "Some c"] by simp
  next
    case False
    then show ?thesis using that [of None] by simp
  qed
  from assms lo co have "((p, lo), co) \<in> set (posts_likes_comments d)"
    by (simp add: in_posts_likes_comments_iff)
  then show ?thesis by blast
qed

lemma joined_keys:
  "(\<lambda>r. post_id (fst (fst r))) ` set (posts_likes_comments d) = post_id ` set (posts d)"
proof
  show "(\<lambda>r. post_id (fst (fst r))) ` set (posts_likes_comments d) \<subseteq> post_id ` set (posts d)"
  proof
    fix g assume "g \<in> (\<lambda>r. post_id (fst (fst r))) ` set (posts_likes_comments d)"
    then obtain p lo co where "((p, lo), co) \<in> set (posts_likes_comments d)" "g = post_id p"
      by auto
    then show "g \<in> post_id ` set (posts d)" by (simp add: in_posts_likes_comments_iff)
  qed
next
  show "post_id ` set (posts d) \<subseteq> (\<lambda>r. post_id (fst (fst r))) ` set (posts_likes_comments d)"
  proof
    fix g assume "g \<in> post_id ` set (posts d)"
    then obtain p where p: "p \<in> set (posts d)" "g = post_id p" by auto
    from post_has_joined_row [OF p(1)] obtain lo co
      where "((p, lo), co) \<in> set (posts_likes_comments d)" by blast
    with p(2) show "g \<in> (\<lambda>r. post_id (fst (fst r))) ` set (posts_likes_comments d)"
      by force
  qed
qed

lemma count_distinct_card: "count_distinct vs = card {v. Some v \<in> set vs}"
proof -
  have "set (List.map_filter (\<lambda>v. v) vs) = {v. Some v \<in> set vs}"
    by (induction vs) (auto split: option.splits)
  then show ?thesis by (simp add: count_distinct_def length_remdups_card_conv)
qed

lemma card_keys_filter:
  assumes "distinct (map f xs)"
  shows "card (f ` {x \<in> set xs. P x}) = length (filter P xs)"
proof -
  have "distinct (map f (filter P xs))" using assms by (rule distinct_map_filter)
  then have "card (set (map f (filter P xs))) = length (map f (filter P xs))"
    by (rule distinct_card)
  then show ?thesis by simp
qed

lemma group_like_ids:
  assumes "g \<in> post_id ` set (posts d)"
  shows "{v. Some v \<in> set (map (\<lambda>x. map_option like_id (snd (fst x)))
                   (filter (\<lambda>r. post_id (fst (fst r)) = g) (posts_likes_comments d)))}
         = like_id ` {l \<in> set (likes d). like_postId l = g}" (is "?L = ?R")
proof
  show "?L \<subseteq> ?R"
  proof
    fix v assume "v \<in> ?L"
    then obtain x where x: "x \<in> set (posts_likes_comments d)" "post_id (fst (fst x)) = g"
      "Some v = map_option like_id (snd (fst x))" by auto
    obtain p lo co where "x = ((p, lo), co)" by (metis prod.collapse)
    with x have r: "((p, lo), co) \<in> set (posts_likes_comments d)"
      "post_id p = g" "Some v = map_option like_id lo" by simp_all
    then obtain l where "lo = Some l" "like_id l = v" by (cases lo) auto
    with r show "v \<in> ?R" by (auto simp: in_posts_likes_comments_iff)
  qed
next
  show "?R \<subseteq> ?L"
  proof
    fix v assume "v \<in> ?R"
    then obtain l where l: "l \<in> set (likes d)" "like_postId l = g" "v = like_id l" by auto
    from assms obtain p where p: "p \<in> set (posts d)" "post_id p = g" by auto
    from post_has_joined_row [OF p(1)] obtain lo co
      where "((p, lo), co) \<in> set (posts_likes_comments d)" by blast
    with l p have "((p, Some l), co) \<in> set (posts_likes_comments d)"
      by (simp add: in_posts_likes_comments_iff)
    with p(2) l(3) show "v \<in> ?L" by force
  qed
qed

lemma group_comment_ids:
  assumes "g \<in> post_id ` set (posts d)"
  shows "{v. Some v \<in> set (map (\<lambda>x. map_option comment_id (snd x))
                   (filter (\<lambda>r. post_id (fst (fst r)) = g) (posts_likes_comments d)))}
         = comment_id ` {c \<in> set (comments d). comment_postId c = g}" (is "?L = ?R")
proof
  show "?L \<subseteq> ?R"
  proof
    fix v assume "v \<in> ?L"
    then obtain x where x: "x \<in> set (posts_likes_comments d)" "post_id (fst (fst x)) = g"
      "Some v = map_option comment_id (snd x)" by auto
    obtain p lo co where "x = ((p, lo), co)" by (metis prod.collapse)
    with x have r: "((p, lo), co) \<in> set (posts_likes_comments d)"
      "post_id p = g" "Some v = map_option comment_id co" by simp_all
    then obtain c where "co = Some c" "comment_id c = v" by (cases co) auto
    with r show "v \<in> ?R" by (auto simp: in_posts_likes_comments_iff)
  qed
next
  show "?R \<subseteq> ?L"
  proof
    fix v assume "v \<in> ?R"
    then obtain c where c: "c \<in> set (comments d)" "comment_postId c = g" "v = comment_id c" by auto
    from assms obtain p where p: "p \<in> set (posts d)" "post_id p = g" by auto
    from post_has_joined_row [OF p(1)] obtain lo co
      where "((p, lo), co) \<in> set (posts_likes_comments d)" by blast
    with c p have "((p, lo), Some c) \<in> set (posts_likes_comments d)"
      by (simp add: in_posts_likes_comments_iff)
    with p(2) c(3) show "v \<in> ?L" by force
  qed
qed

lemma truncate_select_post_counts: "post.truncate (select_post_counts p lc cc) = p"
  by (simp add: select_post_counts_def post.truncate_def)

lemma post_id_select_post_counts: "post_id (select_post_counts p lc cc) = post_id p"
  and createdAt_select_post_counts: "post_createdAt (select_post_counts p lc cc) = post_createdAt p"
  and likeCount_select_post_counts: "likeCount (select_post_counts p lc cc) = lc"
  and commentCount_select_post_counts: "commentCount (select_post_counts p lc cc) = cc"
  by (simp_all add: select_post_counts_def)

lemma group_row:
  assumes "g \<in> post_id ` set (posts d)"
  shows "\<exists>p\<in>set (posts d). post_id p = g \<and>
           select_group (filter (\<lambda>r. post_id (fst (fst r)) = g) (posts_likes_comments d))
             = [select_post_counts p
                  (card (like_id ` {l \<in> set (likes d). like_postId l = g}))
                  (card (comment_id ` {c \<in> set (comments d). comment_postId c = g}))]"
proof -
  define grp where "grp = filter (\<lambda>r. post_id (fst (fst r)) = g) (posts_likes_comments d)"
  from assms have "g \<in> (\<lambda>r. post_id (fst (fst r))) ` set (posts_likes_comments d)"
    by (simp add: joined_keys)
  then obtain x0 where "x0 \<in> set grp" by (auto simp: grp_def)
  then obtain x xs where grp: "grp = x # xs" by (cases grp) auto
  then have "x \<in> set grp" by simp
  then have x: "x \<in> set (posts_likes_comments d)" "post_id (fst (fst x)) = g"
    by (simp_all add: grp_def)
  obtain p lo co where xe: "x = ((p, lo), co)" by (metis prod.collapse)
  with x have p: "p \<in> set (posts d)" "post_id p = g"
    by (simp_all add: in_posts_likes_comments_iff)
  have "select_group grp = [select_post_counts p
          (count_distinct (map (\<lambda>x. map_option like_id (snd (fst x))) grp))
          (count_distinct (map (\<lambda>x. map_option comment_id (snd x)) grp))]"
    unfolding select_group_def by (subst (1) grp) (simp add: xe)
  then have "select_group grp = [select_post_counts p
                  (card (like_id ` {l \<in> set (likes d). like_postId l = g}))
                  (card (comment_id ` {c \<in> set (comments d). comment_postId c = g}))]"
    unfolding count_distinct_card grp_def group_like_ids [OF assms] group_comment_ids [OF assms] .
  with p show ?thesis unfolding grp_def by blast
qed

lemma set_getPosts:
  "set (getPosts d) =
     (\<Union>g\<in>post_id ` set (posts d).
        set (select_group (filter (\<lambda>r. post_id (fst (fst r)) = g) (posts_likes_comments d))))"
  unfolding getPosts_def orderBy_desc_def groupBy_def
  by (simp add: joined_keys [symmetric] del: set_concat) (simp add: image_image)

lemma decimal_not_empty: "decimal n \<noteq> []"
  by (subst decimal.simps) simp

lemma getLikesCount_text:
  "getLikesCount d g = Text (decimal (length (filter (\<lambda>l. like_postId l = g) (likes d))))"
  by (simp add: getLikesCount_def first_row_def where_rows_def decimal_not_empty)

lemma length_getCommentsByPost:
  "length (getCommentsByPost d g) = length (filter (\<lambda>c. comment_postId c = g) (comments d))"
  by (simp add: getCommentsByPost_def orderBy_def where_rows_def)

text \<open>
  What the two counts of a row of \<open>getPosts\<close> are, in a store where the ids of the Like
  rows are distinct and the ids of the Comment rows are distinct: \<open>commentCount\<close> is the
  length of \<open>getCommentsByPost\<close> for the post id, and \<open>likeCount\<close> is the number of Like
  rows of the post, the number whose decimal text \<open>getLikesCount\<close> returns.
\<close>

lemma getPosts_counts:
  assumes "distinct (map like_id (likes d))" and "distinct (map comment_id (comments d))"
    and "r \<in> set (getPosts d)"
  shows "commentCount r = length (getCommentsByPost d (post_id r)) \<and>
         likeCount r = length (getLikesByPost d (post_id r)) \<and>
         getLikesCount d (post_id r) = Text (decimal (likeCount r))"
proof -
  from assms(3) obtain g where g: "g \<in> post_id ` set (posts d)"
    and r: "r \<in> set (select_group (filter (\<lambda>r. post_id (fst (fst r)) = g) (posts_likes_comments d)))"
    unfolding set_getPosts by blast
  from group_row [OF g] r obtain p where p: "post_id p = g"
    and re: "r = select_post_counts p
                  (card (like_id ` {l \<in> set (likes d). like_postId l = g}))
                  (card (comment_id ` {c \<in> set (comments d). comment_postId c = g}))"
    by auto
  from re p have "post_id r = g" by (simp add: post_id_select_post_counts)
  moreover from re have "likeCount r = length (filter (\<lambda>l. like_postId l = g) (likes d))"
    by (simp add: likeCount_select_post_counts card_keys_filter [OF assms(1)])
  moreover from re have "commentCount r = length (filter (\<lambda>c. comment_postId c = g) (comments d))"
    by (simp add: commentCount_select_post_counts card_keys_filter [OF assms(2)])
  ultimately show ?thesis
    by (simp add: getLikesCount_text length_getCommentsByPost getLikesByPost_def where_rows_def)
qed

lemma example_db_joined:
  "posts_likes_comments example_db =
     [((posts example_db ! 0, Some (likes example_db ! 0)), Some (comments example_db ! 0)),
      ((posts example_db ! 0, Some (likes example_db ! 0)), Some (comments example_db ! 1)),
      ((posts example_db ! 0, Some (likes example_db ! 1)), Some (comments example_db ! 0)),
      ((posts example_db ! 0, Some (likes example_db ! 1)), Some (comments example_db ! 1)),
      ((posts example_db ! 1, None), None)]"
  by (simp add: posts_likes_comments_def leftJoin_def example_db_def example_post1_def
      example_post2_def)

text \<open>
  Claim C3, which the code does not meet. On the example store, whose post \<open>p1\<close> has two
  Like rows and two Comment rows, \<open>getPosts\<close> gives \<open>p1\<close> the numbers 2 and 2, and the
  \<open>commentCount\<close> is the length of \<open>getCommentsByPost\<close>. But \<open>getLikesCount\<close> returns
  the text \<^verbatim>\<open>"2"\<close>, not the number 2, and for \<open>p2\<close> the text \<^verbatim>\<open>"0"\<close>: its
  \<^verbatim>\<open>COUNT(*)\<close> lacks the cast that the counts of \<open>getPosts\<close> have.
\<close>

theorem getLikesCount_is_text_not_likeCount:
  "map (\<lambda>r. (post_id r, likeCount r, commentCount r)) (getPosts example_db)
     = [(''p2'', 0, 0), (''p1'', 2, 2)] \<and>
   length (getCommentsByPost example_db ''p1'') = 2 \<and>
   length (getCommentsByPost example_db ''p2'') = 0 \<and>
   getLikesCount example_db ''p1'' = Text ''2'' \<and>
   getLikesCount example_db ''p1'' \<noteq> Number 2 \<and>
   getLikesCount example_db ''p2'' = Text ''0'' \<and>
   getLikesCount example_db ''p2'' \<noteq> Number 0"
proof -
  have rows: "map (\<lambda>r. (post_id r, likeCount r, commentCount r)) (getPosts example_db)
     = [(''p2'', 0, 0), (''p1'', 2, 2)]"
    unfolding getPosts_def example_db_joined
    by (simp add: groupBy_def select_group_def orderBy_desc_def example_db_def
        example_post1_def example_post2_def select_post_counts_def count_distinct_def)
  have c: "length (getCommentsByPost example_db ''p1'') = 2"
    "length (getCommentsByPost example_db ''p2'') = 0"
    by (simp_all add: length_getCommentsByPost example_db_def)
  have l: "getLikesCount example_db ''p1'' = Text ''2''"
    "getLikesCount example_db ''p2'' = Text ''0''"
    by (simp_all add: getLikesCount_text example_db_def decimal.simps)
  from rows c l show ?thesis by simp
qed

lemma length_getPosts:
  assumes "distinct (map post_id (posts d))"
  shows "length (getPosts d) = length (posts d)"
proof -
  let ?key = "\<lambda>r. post_id (fst (fst r))"
  let ?J = "posts_likes_comments d"
  have one: "length (select_group (filter (\<lambda>r. ?key r = g) ?J)) = 1"
    if "g \<in> set (remdups (map ?key ?J))" for g
  proof -
    from that have "g \<in> post_id ` set (posts d)" by (simp add: joined_keys)
    from group_row [OF this] show ?thesis by auto
  qed
  have "length (getPosts d) = sum_list (map (\<lambda>g. length (select_group (filter (\<lambda>r. ?key r = g) ?J)))
                                 (remdups (map ?key ?J)))"
    by (simp add: getPosts_def orderBy_desc_def groupBy_def length_concat comp_def)
  also have "\<dots> = sum_list (map (\<lambda>g. 1) (remdups (map ?key ?J)))"
  proof -
    have "map (\<lambda>g. length (select_group (filter (\<lambda>r. ?key r = g) ?J))) (remdups (map ?key ?J))
            = map (\<lambda>g. 1) (remdups (map ?key ?J))"
      by (rule map_cong [OF refl]) (rule one)
    then show ?thesis by (simp only:)
  qed
  also have "\<dots> = length (remdups (map ?key ?J))"
    by (simp add: sum_list_triv)
  also have "\<dots> = card (post_id ` set (posts d))"
    by (simp add: length_remdups_card_conv joined_keys)
  also have "\<dots> = length (posts d)"
    using distinct_card [OF assms] by simp
  finally show ?thesis .
qed

lemma post_row_in_getPosts:
  assumes "distinct (map post_id (posts d))" and "p \<in> set (posts d)"
  shows "select_post_counts p
           (card (like_id ` {l \<in> set (likes d). like_postId l = post_id p}))
           (card (comment_id ` {c \<in> set (comments d). comment_postId c = post_id p}))
         \<in> set (getPosts d)"
proof -
  let ?g = "post_id p"
  from assms(2) have g: "?g \<in> post_id ` set (posts d)" by simp
  from group_row [OF g] obtain q where q: "q \<in> set (posts d)" "post_id q = ?g"
    and sel: "select_group (filter (\<lambda>r. post_id (fst (fst r)) = ?g) (posts_likes_comments d))
             = [select_post_counts q
                  (card (like_id ` {l \<in> set (likes d). like_postId l = ?g}))
                  (card (comment_id ` {c \<in> set (comments d). comment_postId c = ?g}))]"
    by blast
  from assms(1) have "inj_on post_id (set (posts d))" by (simp add: distinct_map)
  with q assms(2) have "q = p" by (auto dest: inj_onD)
  with sel g show ?thesis unfolding set_getPosts by force
qed

text \<open>
  Claim C4. In a store where the ids of the posts are distinct (\<^verbatim>\<open>posts.id\<close> is the
  primary key), \<open>getPosts\<close> returns as many rows as there are posts and a row for
  every post; a post with no Like row and no Comment row is there with
  \<open>likeCount = 0\<close> and \<open>commentCount = 0\<close>.
\<close>

theorem getPosts_keeps_every_post:
  assumes "distinct (map post_id (posts d))" and "p \<in> set (posts d)"
  shows "length (getPosts d) = length (posts d) \<and>
         (\<exists>r\<in>set (getPosts d). post.truncate r = p) \<and>
         (getLikesByPost d (post_id p) = [] \<longrightarrow> getCommentsByPost d (post_id p) = [] \<longrightarrow>
            select_post_counts p 0 0 \<in> set (getPosts d))"
proof -
  let ?g = "post_id p"
  have row: "select_post_counts p
                  (card (like_id ` {l \<in> set (likes d). like_postId l = ?g}))
                  (card (comment_id ` {c \<in> set (comments d). comment_postId c = ?g}))
          \<in> set (getPosts d)"
    using assms by (rule post_row_in_getPosts)
  then have "\<exists>r\<in>set (getPosts d). post.truncate r = p"
    using truncate_select_post_counts by blast
  moreover have "select_post_counts p 0 0 \<in> set (getPosts d)"
    if "getLikesByPost d ?g = []" and "getCommentsByPost d ?g = []"
  proof -
    from that(1) have l: "{l \<in> set (likes d). like_postId l = ?g} = {}"
      by (auto simp: getLikesByPost_def where_rows_def filter_empty_conv)
    from that(2) have "length (filter (\<lambda>c. comment_postId c = ?g) (comments d)) = 0"
      by (simp add: length_getCommentsByPost [symmetric])
    then have c: "{c \<in> set (comments d). comment_postId c = ?g} = {}"
      by (auto simp: filter_empty_conv)
    from row show ?thesis unfolding l c by simp
  qed
  ultimately show ?thesis using length_getPosts [OF assms(1)] by blast
qed

theorem getPosts_keeps_every_post_witness:
  "distinct (map post_id (posts example_db)) \<and> example_post2 \<in> set (posts example_db) \<and>
   getLikesByPost example_db (post_id example_post2) = [] \<and>
   getCommentsByPost example_db (post_id example_post2) = [] \<and>
   length (getPosts example_db) = 2 \<and>
   select_post_counts example_post2 0 0 \<in> set (getPosts example_db)"
proof -
  have h1: "distinct (map post_id (posts example_db))"
    by (simp add: example_db_def example_post1_def example_post2_def)
  have h2: "example_post2 \<in> set (posts example_db)" by (simp add: example_db_def)
  have h3: "getLikesByPost example_db (post_id example_post2) = []"
    by (simp add: getLikesByPost_def where_rows_def example_db_def example_post2_def)
  have h4: "getCommentsByPost example_db (post_id example_post2) = []"
    by (simp add: getCommentsByPost_def orderBy_def where_rows_def example_db_def example_post2_def)
  have n: "length (posts example_db) = 2" by (simp add: example_db_def)
  from getPosts_keeps_every_post [OF h1 h2] h1 h2 h3 h4 n show ?thesis by simp
qed

section \<open>Posts, newest first\<close>






end
